theory Spec2Isabelle
  imports Complex_Main "HOL-Library.Log_Nat"
begin

section \<open>Psychoacoustic correction: a shallow embedding\<close>

text \<open>
  The development follows \<^verbatim>\<open>src/temporary/psychoacoustic_correction.cpp\<close>.

  Conventions of the embedding:
  \<^item> a C++ \<^verbatim>\<open>float\<close> is a \<^typ>\<open>real\<close>: arithmetic is exact, and the decimal literals of
    the source denote their decimal values. Rounding, overflow to infinity and NaN are
    outside this part of the model. Two effects of binary32 are written out where a
    property depends on them: the underflow of \<^verbatim>\<open>std::pow\<close> to zero in
    \<^verbatim>\<open>convertToFFTBins\<close>, and rounding in \<^verbatim>\<open>smoothTransition\<close>, which a subsection
    below gives a second time in binary32 arithmetic;
  \<^item> \<^verbatim>\<open>std::vector<float>\<close> is a \<^typ>\<open>real list\<close> and the raw spectrum
    pointer a \<^typ>\<open>complex list\<close> whose length is the size of the caller's buffer;
  \<^item> \<^verbatim>\<open>fftSize\<close> and the loop counters are natural numbers (the source uses
    \<^verbatim>\<open>int\<close>; a transform size is positive and far from the limits of \<^verbatim>\<open>int\<close>);
  \<^item> C++ has no bounds check on \<^verbatim>\<open>operator[]\<close>: an access outside the vector or
    buffer is undefined behaviour. The functions that index a caller-supplied vector
    return \<^const>\<open>None\<close> at such an access and \<^const>\<open>Some\<close> of their result otherwise.
\<close>

subsection \<open>The ISO 226 tables\<close>

definition NUM_FREQUENCIES :: nat where
  "NUM_FREQUENCIES = 29"

definition FREQUENCIES :: "real list" where
  "FREQUENCIES =
     [20, 25, 31.5, 40, 50, 63, 80, 100, 125, 160, 200, 250, 315, 400, 500,
      630, 800, 1000, 1250, 1600, 2000, 2500, 3150, 4000, 5000, 6300, 8000, 10000, 12500]"

definition NUM_PHON_LEVELS :: nat where
  "NUM_PHON_LEVELS = 11"

definition PHON_LEVELS :: "real list" where
  "PHON_LEVELS = [0, 10, 20, 30, 40, 50, 60, 70, 80, 90, 100]"

text \<open>
  The source gives four initialisers for the eleven rows of \<^verbatim>\<open>ISO226_SPL\<close>; C++
  value-initialises the remaining seven rows to zero. The third and fourth initialiser
  (rows 2 and 3) hold the data the comments call 40 phon and 60 phon.
\<close>

definition ISO226_SPL :: "real list list" where
  "ISO226_SPL =
     [[74.3, 65.0, 56.3, 48.4, 41.7, 35.5, 29.8, 25.1, 20.7, 16.8, 13.8, 11.2, 8.9, 7.2, 6.0,
       5.0, 4.4, 4.2, 3.7, 2.6, 1.0, -1.2, -3.6, -3.9, -1.1, 4.3, 11.1, 15.3, 16.4],
      [83.2, 74.3, 65.9, 58.0, 51.4, 45.5, 40.0, 35.2, 31.0, 27.0, 23.7, 21.1, 18.8, 17.0, 15.7,
       14.6, 13.8, 13.4, 13.0, 12.6, 11.8, 10.6, 8.9, 7.9, 9.6, 14.4, 20.7, 24.7, 25.6],
      [99.8, 93.1, 86.5, 80.0, 74.1, 68.7, 63.6, 58.9, 54.5, 50.4, 46.6, 43.1, 39.9, 37.1, 34.6,
       32.4, 30.4, 29.0, 27.8, 26.6, 25.5, 23.9, 22.0, 20.5, 21.3, 25.4, 31.3, 35.4, 36.6],
      [109.5, 103.7, 98.0, 92.6, 87.4, 82.5, 77.8, 73.4, 69.2, 65.2, 61.4, 57.8, 54.5, 51.4, 48.6,
       46.0, 43.5, 41.5, 40.0, 38.5, 37.2, 35.5, 33.5, 31.6, 32.2, 36.0, 41.7, 45.8, 47.1]]
     @ replicate 7 (replicate 29 0)"

subsection \<open>\<^verbatim>\<open>interpolatePhonToSPL\<close>\<close>

text \<open>
  The scan \<^verbatim>\<open>for (i = 0; i < NUM_FREQUENCIES - 1; i++) if (...) { freqIdx = i; break; }\<close>:
  \<open>freqIdx\<close> is the value the variable holds so far, returned unchanged when no
  interval matches.
\<close>

function freqIdxLoop :: "real \<Rightarrow> nat \<Rightarrow> nat \<Rightarrow> nat" where
  "freqIdxLoop frequency i freqIdx =
     (if i < NUM_FREQUENCIES - 1 then
        (if frequency \<ge> FREQUENCIES ! i \<and> frequency \<le> FREQUENCIES ! (i + 1) then i
         else freqIdxLoop frequency (i + 1) freqIdx)
      else freqIdx)"
  by pat_completeness auto
termination
  by (relation "measure (\<lambda>(frequency, i, freqIdx). NUM_FREQUENCIES - 1 - i)") auto

declare freqIdxLoop.simps [simp del]

text \<open>
  The two index computations of the function body: the scan started with
  \<^verbatim>\<open>int freqIdx = 0\<close>, and \<^verbatim>\<open>int phonIdx = 2; if (phonLevel > 50) phonIdx = 3;\<close>.
\<close>

definition findFreqIdx :: "real \<Rightarrow> nat" where
  "findFreqIdx frequency = freqIdxLoop frequency 0 0"

definition findPhonIdx :: "real \<Rightarrow> nat" where
  "findPhonIdx phonLevel = (if phonLevel > 50 then 3 else 2)"

definition interpolatePhonToSPL :: "real \<Rightarrow> real \<Rightarrow> real" where
  "interpolatePhonToSPL frequency phonLevel =
     (let freqIdx = findFreqIdx frequency;
          phonIdx = findPhonIdx phonLevel;
          f1 = FREQUENCIES ! freqIdx;
          f2 = FREQUENCIES ! (freqIdx + 1);
          spl1 = ISO226_SPL ! phonIdx ! freqIdx;
          spl2 = ISO226_SPL ! phonIdx ! (freqIdx + 1);
          ratio = (frequency - f1) / (f2 - f1)
      in spl1 + ratio * (spl2 - spl1))"

subsection \<open>\<^verbatim>\<open>calculateCorrectionCurve\<close>\<close>

text \<open>
  The body of the loop over \<open>i\<close>, and the loop over \<open>0, ..., NUM_FREQUENCIES - 1\<close> on the
  vector \<^verbatim>\<open>correction(NUM_FREQUENCIES)\<close>, which starts filled with zeros.
\<close>

definition correctionStep :: "real \<Rightarrow> real \<Rightarrow> nat \<Rightarrow> real list \<Rightarrow> real list" where
  "correctionStep currentPhon targetPhon i correction =
     (let currentSPL = interpolatePhonToSPL (FREQUENCIES ! i) currentPhon;
          targetSPL = interpolatePhonToSPL (FREQUENCIES ! i) targetPhon
      in correction[i := targetSPL - currentSPL])"

definition calculateCorrectionCurve :: "real \<Rightarrow> real \<Rightarrow> real list" where
  "calculateCorrectionCurve currentPhon targetPhon =
     fold (correctionStep currentPhon targetPhon) [0..<NUM_FREQUENCIES]
       (replicate NUM_FREQUENCIES 0)"

subsection \<open>\<^verbatim>\<open>convertToFFTBins\<close>\<close>

text \<open>The scan \<^verbatim>\<open>while (idx < NUM_FREQUENCIES - 1 && FREQUENCIES[idx + 1] < freq) idx++;\<close>\<close>

function binIdxLoop :: "real \<Rightarrow> nat \<Rightarrow> nat" where
  "binIdxLoop freq idx =
     (if idx < NUM_FREQUENCIES - 1 \<and> FREQUENCIES ! (idx + 1) < freq
      then binIdxLoop freq (idx + 1) else idx)"
  by pat_completeness auto
termination
  by (relation "measure (\<lambda>(freq, idx). NUM_FREQUENCIES - 1 - idx)") auto

declare binIdxLoop.simps [simp del]

text \<open>
  \<^verbatim>\<open>std::pow(10.0f, x)\<close> returns a \<^verbatim>\<open>float\<close>. The smallest positive binary32 value is
  \<open>2 ^ -149\<close>; where the exact power is at most \<open>2 ^ -150\<close>, half of it, the call
  underflows and returns \<^verbatim>\<open>0.0f\<close>. Above that bound the result is taken as the exact
  power (an overflow to infinity appears as the exact, large, positive value).
\<close>

definition std_pow :: "real \<Rightarrow> real \<Rightarrow> real" where
  "std_pow base x = (if base powr x \<le> 2 powi (- 150) then 0 else base powr x)"

text \<open>
  The body of the loop over the bins. The two reads of \<^verbatim>\<open>correctionCurve\<close> are the
  accesses that can leave the vector.
\<close>

definition binStep :: "real \<Rightarrow> nat \<Rightarrow> real list \<Rightarrow> nat \<Rightarrow> real list \<Rightarrow> real list option" where
  "binStep sampleRate fftSize correctionCurve bin fftGains =
     (let freq = real bin * sampleRate / real fftSize;
          idx = binIdxLoop freq 0
      in if idx < NUM_FREQUENCIES - 1 then
           (if idx + 1 < length correctionCurve then
              (let f1 = FREQUENCIES ! idx;
                   f2 = FREQUENCIES ! (idx + 1);
                   g1 = correctionCurve ! idx;
                   g2 = correctionCurve ! (idx + 1);
                   ratio = (freq - f1) / (f2 - f1);
                   gainDB = g1 + ratio * (g2 - g1)
               in Some (fftGains[bin := std_pow 10 (gainDB / 20)]))
            else None)
         else Some fftGains)"

function binLoop :: "real \<Rightarrow> nat \<Rightarrow> real list \<Rightarrow> nat \<Rightarrow> nat \<Rightarrow> real list \<Rightarrow> real list option" where
  "binLoop sampleRate fftSize correctionCurve numBins bin fftGains =
     (if bin < numBins then
        (case binStep sampleRate fftSize correctionCurve bin fftGains of
           None \<Rightarrow> None
         | Some fftGains' \<Rightarrow> binLoop sampleRate fftSize correctionCurve numBins (bin + 1) fftGains')
      else Some fftGains)"
  by pat_completeness auto
termination
  by (relation "measure (\<lambda>(sampleRate, fftSize, correctionCurve, numBins, bin, fftGains). numBins - bin)")
    auto

declare binLoop.simps [simp del]

definition convertToFFTBins :: "real \<Rightarrow> nat \<Rightarrow> real list \<Rightarrow> real list option" where
  "convertToFFTBins sampleRate fftSize correctionCurve =
     (let numBins = fftSize div 2 + 1
      in binLoop sampleRate fftSize correctionCurve numBins 0 (replicate numBins 1))"

subsection \<open>\<^verbatim>\<open>smoothTransition\<close>\<close>

text \<open>
  The loop runs over \<^verbatim>\<open>newGains.size()\<close> and reads \<^verbatim>\<open>currentGains[i]\<close>, which leaves
  the vector when \<^verbatim>\<open>currentGains\<close> is the shorter one. The result is the new content of
  \<^verbatim>\<open>newGains\<close>.
\<close>

function smoothLoop :: "real list \<Rightarrow> real \<Rightarrow> nat \<Rightarrow> real list \<Rightarrow> real list option" where
  "smoothLoop currentGains smoothingFactor i newGains =
     (if i < length newGains then
        (if i < length currentGains then
           smoothLoop currentGains smoothingFactor (i + 1)
             (newGains[i := currentGains ! i * smoothingFactor
                             + newGains ! i * (1 - smoothingFactor)])
         else None)
      else Some newGains)"
  by pat_completeness auto
termination
  by (relation "measure (\<lambda>(currentGains, smoothingFactor, i, newGains). length newGains - i)")
    auto

declare smoothLoop.simps [simp del]

definition smoothTransition :: "real list \<Rightarrow> real list \<Rightarrow> real \<Rightarrow> real list option" where
  "smoothTransition newGains currentGains smoothingFactor =
     smoothLoop currentGains smoothingFactor 0 newGains"

subsection \<open>\<^verbatim>\<open>applyCorrection\<close>\<close>

text \<open>\<^verbatim>\<open>std::complex<float>::operator*=(float)\<close> scales both parts.\<close>

definition cscale :: "complex \<Rightarrow> real \<Rightarrow> complex" where
  "cscale z gain = Complex (Re z * gain) (Im z * gain)"

text \<open>
  The state of the loop is the spectrum buffer together with a log, in order, of the
  indices that the mirroring assignment
  \<^verbatim>\<open>spectrum[fftSize - bin] = std::conj(spectrum[bin])\<close> has written. The log is not in
  the source; it records where that assignment acts.
\<close>

type_synonym corr_state = "complex list \<times> nat list"

definition applyStep :: "nat \<Rightarrow> real list \<Rightarrow> real \<Rightarrow> nat \<Rightarrow> corr_state \<Rightarrow> corr_state option" where
  "applyStep fftSize gains adaptiveFactor bin st =
     (let numBins = fftSize div 2 + 1;
          spectrum = fst st;
          mirrored = snd st
      in if bin < length gains \<and> bin < length spectrum then
           (let gain = 1 + (gains ! bin - 1) * adaptiveFactor;
                spectrum' = spectrum[bin := cscale (spectrum ! bin) gain]
            in if bin > 0 \<and> bin < numBins - 1 then
                 (if fftSize - bin < length spectrum' then
                    Some (spectrum'[fftSize - bin := cnj (spectrum' ! bin)],
                          mirrored @ [fftSize - bin])
                  else None)
               else Some (spectrum', mirrored))
         else None)"

function applyLoop :: "nat \<Rightarrow> real list \<Rightarrow> real \<Rightarrow> nat \<Rightarrow> corr_state \<Rightarrow> corr_state option" where
  "applyLoop fftSize gains adaptiveFactor bin st =
     (if bin < fftSize div 2 + 1 then
        (case applyStep fftSize gains adaptiveFactor bin st of
           None \<Rightarrow> None
         | Some st' \<Rightarrow> applyLoop fftSize gains adaptiveFactor (bin + 1) st')
      else Some st)"
  by pat_completeness auto
termination
  by (relation "measure (\<lambda>(fftSize, gains, adaptiveFactor, bin, st). fftSize div 2 + 1 - bin)")
    auto

declare applyLoop.simps [simp del]

definition applyCorrection :: "nat \<Rightarrow> complex list \<Rightarrow> real list \<Rightarrow> real \<Rightarrow> corr_state option" where
  "applyCorrection fftSize spectrum gains adaptiveFactor =
     applyLoop fftSize gains adaptiveFactor 0 (spectrum, [])"

subsection \<open>\<^verbatim>\<open>getAdaptiveCompensationFactor\<close>\<close>

text \<open>\<^verbatim>\<open>std::clamp(v, lo, hi)\<close> is \<^verbatim>\<open>(v < lo) ? lo : (hi < v) ? hi : v\<close>.\<close>

definition std_clamp :: "real \<Rightarrow> real \<Rightarrow> real \<Rightarrow> real" where
  "std_clamp v lo hi = (if v < lo then lo else if hi < v then hi else v)"

definition getAdaptiveCompensationFactor :: "real \<Rightarrow> real" where
  "getAdaptiveCompensationFactor listeningDuration =
     (let minutes = listeningDuration / 60;
          factor = 0.5 - (0.3 * tanh (minutes / 10))
      in std_clamp factor 0.2 0.5)"

subsection \<open>The interpolator of the specification\<close>

text \<open>
  Section 4.1 of the specification, written from its words to be compared with
  \<^const>\<open>interpolatePhonToSPL\<close>: bracket the frequency in \<^const>\<open>FREQUENCIES\<close> and, in
  the same way, the phon level in \<^const>\<open>PHON_LEVELS\<close>; interpolate linearly in frequency
  within each of the two bracketing rows; interpolate linearly in phon between the two
  row results.
\<close>

function bracketLoop :: "real list \<Rightarrow> real \<Rightarrow> nat \<Rightarrow> nat" where
  "bracketLoop xs x i =
     (if i + 1 < length xs then
        (if xs ! i \<le> x \<and> x \<le> xs ! (i + 1) then i else bracketLoop xs x (i + 1))
      else 0)"
  by pat_completeness auto
termination
  by (relation "measure (\<lambda>(xs, x, i). length xs - i)") auto

declare bracketLoop.simps [simp del]

definition spec_rowInterpolate :: "nat \<Rightarrow> nat \<Rightarrow> real \<Rightarrow> real" where
  "spec_rowInterpolate row i frequency =
     (let f1 = FREQUENCIES ! i;
          f2 = FREQUENCIES ! (i + 1);
          spl1 = ISO226_SPL ! row ! i;
          spl2 = ISO226_SPL ! row ! (i + 1)
      in spl1 + (frequency - f1) / (f2 - f1) * (spl2 - spl1))"

definition spec_bilinearInterpolate :: "real \<Rightarrow> real \<Rightarrow> real" where
  "spec_bilinearInterpolate frequency phonLevel =
     (let i = bracketLoop FREQUENCIES frequency 0;
          j = bracketLoop PHON_LEVELS phonLevel 0;
          p1 = PHON_LEVELS ! j;
          p2 = PHON_LEVELS ! (j + 1);
          lower = spec_rowInterpolate j i frequency;
          upper = spec_rowInterpolate (j + 1) i frequency
      in lower + (phonLevel - p1) / (p2 - p1) * (upper - lower))"

subsection \<open>\<^verbatim>\<open>smoothTransition\<close> in binary32 arithmetic\<close>

text \<open>
  On the platforms the code is built for, \<^verbatim>\<open>float\<close> is IEEE 754 binary32: every
  \<^verbatim>\<open>+\<close>, \<^verbatim>\<open>-\<close> and \<^verbatim>\<open>*\<close> returns the exact result rounded to 24 significant bits,
  ties to the even significand. A value is a pair \<open>(m, e)\<close> of integers denoting
  \<open>m * 2 ^ e\<close>; exact sums and products of such pairs are such pairs, so rounding is a
  computation on the integer \<open>m\<close>. The exponent is unbounded here: overflow, subnormal
  numbers, infinities and NaN are not part of this model.
\<close>

type_synonym f32 = "int \<times> int"

definition f32_val :: "f32 \<Rightarrow> real" where
  "f32_val x = of_int (fst x) * 2 powi (snd x)"

definition is_f32 :: "f32 \<Rightarrow> bool" where
  "is_f32 x \<longleftrightarrow> bitlen \<bar>fst x\<bar> \<le> 24"

definition round24 :: "f32 \<Rightarrow> f32" where
  "round24 x =
     (let m = fst x; e = snd x; k = bitlen \<bar>m\<bar> - 24
      in if k \<le> 0 then (m, e)
         else (let q = m div 2 ^ nat k;
                   r = m mod 2 ^ nat k;
                   half = 2 ^ nat (k - 1)
               in (if r > half \<or> (r = half \<and> odd q) then q + 1 else q, e + k)))"

definition f32_mul :: "f32 \<Rightarrow> f32 \<Rightarrow> f32" where
  "f32_mul a b = round24 (fst a * fst b, snd a + snd b)"

definition f32_add :: "f32 \<Rightarrow> f32 \<Rightarrow> f32" where
  "f32_add a b =
     (let e = min (snd a) (snd b)
      in round24 (fst a * 2 ^ nat (snd a - e) + fst b * 2 ^ nat (snd b - e), e))"

definition f32_sub :: "f32 \<Rightarrow> f32 \<Rightarrow> f32" where
  "f32_sub a b = f32_add a (- fst b, snd b)"

text \<open>
  A compiler may contract \<^verbatim>\<open>a * b + c\<close> into one fused multiply-add, which rounds
  once: \<open>f32_fma a b c\<close> is the rounded value of the exact \<open>a * b + c\<close>.
\<close>

definition f32_fma :: "f32 \<Rightarrow> f32 \<Rightarrow> f32 \<Rightarrow> f32" where
  "f32_fma a b c =
     (let e = min (snd a + snd b) (snd c)
      in round24 (fst a * fst b * 2 ^ nat (snd a + snd b - e) + fst c * 2 ^ nat (snd c - e), e))"

text \<open>
  The right-hand side
  \<^verbatim>\<open>currentGains[i] * smoothingFactor + newGains[i] * (1.0f - smoothingFactor)\<close>,
  every operation rounded; \<open>(1, 0)\<close> is \<^verbatim>\<open>1.0f\<close>.
\<close>

definition blend_f32 :: "f32 \<Rightarrow> f32 \<Rightarrow> f32 \<Rightarrow> f32" where
  "blend_f32 current new smoothingFactor =
     f32_add (f32_mul current smoothingFactor) (f32_mul new (f32_sub (1, 0) smoothingFactor))"

function smoothLoop_f32 :: "f32 list \<Rightarrow> f32 \<Rightarrow> nat \<Rightarrow> f32 list \<Rightarrow> f32 list option" where
  "smoothLoop_f32 currentGains smoothingFactor i newGains =
     (if i < length newGains then
        (if i < length currentGains then
           smoothLoop_f32 currentGains smoothingFactor (i + 1)
             (newGains[i := blend_f32 (currentGains ! i) (newGains ! i) smoothingFactor])
         else None)
      else Some newGains)"
  by pat_completeness auto
termination
  by (relation "measure (\<lambda>(currentGains, smoothingFactor, i, newGains). length newGains - i)")
    auto

declare smoothLoop_f32.simps [simp del]

definition smoothTransition_f32 :: "f32 list \<Rightarrow> f32 list \<Rightarrow> f32 \<Rightarrow> f32 list option" where
  "smoothTransition_f32 newGains currentGains smoothingFactor =
     smoothLoop_f32 currentGains smoothingFactor 0 newGains"

subsection \<open>Notions used in the statements about \<^verbatim>\<open>convertToFFTBins\<close>\<close>

text \<open>
  The centre frequency of a bin as the loop body computes it, and the value the body
  leaves in \<^verbatim>\<open>fftGains[bin]\<close> when that element still holds its initial 1.0.
\<close>

definition binFrequency :: "real \<Rightarrow> nat \<Rightarrow> nat \<Rightarrow> real" where
  "binFrequency sampleRate fftSize bin = real bin * sampleRate / real fftSize"

definition binGain :: "real \<Rightarrow> nat \<Rightarrow> real list \<Rightarrow> nat \<Rightarrow> real" where
  "binGain sampleRate fftSize correctionCurve bin =
     (let freq = binFrequency sampleRate fftSize bin;
          idx = binIdxLoop freq 0
      in if idx < NUM_FREQUENCIES - 1 then
           std_pow 10 ((correctionCurve ! idx
                        + (freq - FREQUENCIES ! idx) / (FREQUENCIES ! (idx + 1) - FREQUENCIES ! idx)
                          * (correctionCurve ! (idx + 1) - correctionCurve ! idx)) / 20)
         else 1)"

subsection \<open>Notions used in the statements about \<^verbatim>\<open>applyCorrection\<close>\<close>

text \<open>The value of \<^verbatim>\<open>spectrum[bin]\<close> after \<^verbatim>\<open>spectrum[bin] *= gain\<close>.\<close>

definition correctedBin :: "complex list \<Rightarrow> real list \<Rightarrow> real \<Rightarrow> nat \<Rightarrow> complex" where
  "correctedBin spectrum gains adaptiveFactor bin =
     cscale (spectrum ! bin) (1 + (gains ! bin - 1) * adaptiveFactor)"

section \<open>Properties\<close>

subsection \<open>Loops that write one element per iteration\<close>

lemma fold_update_map:
  "n \<le> length xs \<Longrightarrow> fold (\<lambda>i ys. ys[i := f i]) [0..<n] xs = map f [0..<n] @ drop n xs"
proof (induction n)
  case 0
  then show ?case by simp
next
  case (Suc n)
  then have "n < length xs" by simp
  then have "(map f [0..<n] @ drop n xs)[n := f n] = map f [0..<n] @ (f n # drop (Suc n) xs)"
    by (simp add: list_update_append Cons_nth_drop_Suc [symmetric])
  with Suc show ?case by simp
qed

subsection \<open>The tables\<close>

lemma length_FREQUENCIES: "length FREQUENCIES = NUM_FREQUENCIES"
  by (simp add: FREQUENCIES_def NUM_FREQUENCIES_def)

lemma FREQUENCIES_range: "x \<in> set FREQUENCIES \<Longrightarrow> 20 \<le> x \<and> x \<le> 12500"
  by (auto simp: FREQUENCIES_def)

lemma FREQUENCIES_nth_range:
  "i < NUM_FREQUENCIES \<Longrightarrow> 20 \<le> FREQUENCIES ! i \<and> FREQUENCIES ! i \<le> 12500"
  using FREQUENCIES_range [of "FREQUENCIES ! i"] by (simp add: length_FREQUENCIES)

lemma findPhonIdx_cases: "findPhonIdx phonLevel = 2 \<or> findPhonIdx phonLevel = 3"
  by (simp add: findPhonIdx_def)

lemma findPhonIdx_same_side:
  "(p1 \<le> 50 \<and> p2 \<le> 50) \<or> (p1 > 50 \<and> p2 > 50) \<Longrightarrow> findPhonIdx p1 = findPhonIdx p2"
  by (auto simp: findPhonIdx_def)

subsection \<open>The correction curve\<close>

lemma calculateCorrectionCurve_map:
  "calculateCorrectionCurve currentPhon targetPhon =
     map (\<lambda>i. interpolatePhonToSPL (FREQUENCIES ! i) targetPhon
              - interpolatePhonToSPL (FREQUENCIES ! i) currentPhon) [0..<NUM_FREQUENCIES]"
proof -
  have "correctionStep currentPhon targetPhon =
          (\<lambda>i ys. ys[i := interpolatePhonToSPL (FREQUENCIES ! i) targetPhon
                           - interpolatePhonToSPL (FREQUENCIES ! i) currentPhon])"
    by (simp add: correctionStep_def fun_eq_iff)
  then show ?thesis
    by (simp add: calculateCorrectionCurve_def fold_update_map)
qed

lemma interpolatePhonToSPL_same_row:
  "findPhonIdx p1 = findPhonIdx p2 \<Longrightarrow> interpolatePhonToSPL f p1 = interpolatePhonToSPL f p2"
  by (simp add: interpolatePhonToSPL_def)

text \<open>
  Claim C5. For every phon level \<open>p\<close>, \<open>calculateCorrectionCurve p p\<close> is a vector of
  length 29 all of whose entries are 0: equal current and target levels give no
  correction at any table frequency.
\<close>

theorem calculateCorrectionCurve_equal_levels:
  "calculateCorrectionCurve p p = replicate 29 0"
  by (simp add: calculateCorrectionCurve_map map_replicate_const NUM_FREQUENCIES_def)

text \<open>
  Claim C6. The phon level enters \<open>interpolatePhonToSPL\<close> only through the test
  \<open>phonLevel > 50\<close>. So for two levels on the same side of 50 the interpolator returns
  the same value at every frequency (in particular at every frequency of the table
  range), and the correction curve between two such levels is the zero vector of
  length 29.
\<close>

theorem same_side_of_50_no_correction:
  "(p1 \<le> 50 \<and> p2 \<le> 50) \<or> (p1 > 50 \<and> p2 > 50) \<Longrightarrow>
     interpolatePhonToSPL f p1 = interpolatePhonToSPL f p2
     \<and> calculateCorrectionCurve p1 p2 = replicate 29 0"
proof -
  assume "(p1 \<le> 50 \<and> p2 \<le> 50) \<or> (p1 > 50 \<and> p2 > 50)"
  then have row: "findPhonIdx p1 = findPhonIdx p2"
    by (rule findPhonIdx_same_side)
  have same: "interpolatePhonToSPL g p1 = interpolatePhonToSPL g p2" for g
    using row by (rule interpolatePhonToSPL_same_row)
  have "calculateCorrectionCurve p1 p2 = replicate 29 0"
    by (simp add: calculateCorrectionCurve_map same map_replicate_const NUM_FREQUENCIES_def)
  with same [of f] show ?thesis
    by simp
qed

theorem same_side_of_50_no_correction_witness:
  "(((40::real) \<le> 50 \<and> (45::real) \<le> 50) \<or> ((40::real) > 50 \<and> (45::real) > 50))
   \<and> interpolatePhonToSPL 1000 40 = interpolatePhonToSPL 1000 45
   \<and> calculateCorrectionCurve 40 45 = replicate 29 0"
proof -
  have h: "((40::real) \<le> 50 \<and> (45::real) \<le> 50) \<or> ((40::real) > 50 \<and> (45::real) > 50)"
    by simp
  from same_side_of_50_no_correction [OF h, of 1000] h show ?thesis
    by blast
qed

subsection \<open>Frequencies outside the table\<close>

lemma freqIdxLoop_outside:
  "frequency < 20 \<or> 12500 < frequency \<Longrightarrow> freqIdxLoop frequency i freqIdx = freqIdx"
proof (induction frequency i freqIdx rule: freqIdxLoop.induct)
  case (1 frequency i freqIdx)
  show ?case
  proof (cases "i < NUM_FREQUENCIES - 1")
    case True
    then have "20 \<le> FREQUENCIES ! i" "FREQUENCIES ! (i + 1) \<le> 12500"
      using FREQUENCIES_nth_range [of i] FREQUENCIES_nth_range [of "i + 1"] by simp_all
    then have "\<not> (frequency \<ge> FREQUENCIES ! i \<and> frequency \<le> FREQUENCIES ! (i + 1))"
      using "1.prems" by auto
    with True "1.IH" "1.prems" show ?thesis
      by (subst freqIdxLoop.simps) auto
  next
    case False
    then show ?thesis by (subst freqIdxLoop.simps) simp
  qed
qed

lemma interpolatePhonToSPL_outside:
  assumes "frequency < 20 \<or> 12500 < frequency"
  shows "interpolatePhonToSPL frequency phonLevel =
           ISO226_SPL ! findPhonIdx phonLevel ! 0
           + (frequency - 20) / (25 - 20)
             * (ISO226_SPL ! findPhonIdx phonLevel ! 1 - ISO226_SPL ! findPhonIdx phonLevel ! 0)"
  using assms
  by (simp add: interpolatePhonToSPL_def findFreqIdx_def freqIdxLoop_outside FREQUENCIES_def
      Let_def)

lemma row_40_phon:
  "ISO226_SPL ! 2 ! 0 = 99.8" "ISO226_SPL ! 2 ! Suc 0 = 93.1" "ISO226_SPL ! 2 ! 28 = 36.6"
  by (simp_all add: ISO226_SPL_def)

lemma row_60_phon:
  "ISO226_SPL ! 3 ! 0 = 109.5" "ISO226_SPL ! 3 ! Suc 0 = 103.7" "ISO226_SPL ! 3 ! 28 = 47.1"
  by (simp_all add: ISO226_SPL_def)

text \<open>
  Claim C10. For every phon level and every frequency outside the tabulated range
  \<open>[20, 12500]\<close>, on either side, the scan of \<open>interpolatePhonToSPL\<close> leaves the bracket
  index at 0 and the function returns the linear extrapolation of the selected row along
  the first table segment (20 Hz to 25 Hz). At frequency 0 this is
  \<open>spl1 - 4 * (spl2 - spl1)\<close>. The result is not the value at the nearest table edge:
  it differs from the row's first entry below 20 Hz and from its last entry above
  12.5 kHz.
\<close>

theorem interpolatePhonToSPL_extrapolates_first_segment:
  "frequency < 20 \<or> 12500 < frequency \<Longrightarrow>
     findFreqIdx frequency = 0
     \<and> interpolatePhonToSPL frequency phonLevel =
         ISO226_SPL ! findPhonIdx phonLevel ! 0
         + (frequency - FREQUENCIES ! 0) / (FREQUENCIES ! 1 - FREQUENCIES ! 0)
           * (ISO226_SPL ! findPhonIdx phonLevel ! 1 - ISO226_SPL ! findPhonIdx phonLevel ! 0)
     \<and> interpolatePhonToSPL 0 phonLevel =
         ISO226_SPL ! findPhonIdx phonLevel ! 0
         - 4 * (ISO226_SPL ! findPhonIdx phonLevel ! 1 - ISO226_SPL ! findPhonIdx phonLevel ! 0)
     \<and> (if frequency < 20
        then interpolatePhonToSPL frequency phonLevel \<noteq> ISO226_SPL ! findPhonIdx phonLevel ! 0
        else interpolatePhonToSPL frequency phonLevel \<noteq> ISO226_SPL ! findPhonIdx phonLevel ! 28)"
proof -
  assume out: "frequency < 20 \<or> 12500 < frequency"
  have idx: "findFreqIdx frequency = 0"
    using out by (simp add: findFreqIdx_def freqIdxLoop_outside)
  have ext: "interpolatePhonToSPL frequency phonLevel =
         ISO226_SPL ! findPhonIdx phonLevel ! 0
         + (frequency - FREQUENCIES ! 0) / (FREQUENCIES ! 1 - FREQUENCIES ! 0)
           * (ISO226_SPL ! findPhonIdx phonLevel ! 1 - ISO226_SPL ! findPhonIdx phonLevel ! 0)"
    using interpolatePhonToSPL_outside [OF out, of phonLevel] by (simp add: FREQUENCIES_def)
  have zero: "interpolatePhonToSPL 0 phonLevel =
         ISO226_SPL ! findPhonIdx phonLevel ! 0
         - 4 * (ISO226_SPL ! findPhonIdx phonLevel ! 1 - ISO226_SPL ! findPhonIdx phonLevel ! 0)"
    using interpolatePhonToSPL_outside [of 0 phonLevel] by simp
  have edge: "if frequency < 20
        then interpolatePhonToSPL frequency phonLevel \<noteq> ISO226_SPL ! findPhonIdx phonLevel ! 0
        else interpolatePhonToSPL frequency phonLevel \<noteq> ISO226_SPL ! findPhonIdx phonLevel ! 28"
  proof (cases "frequency < 20")
    case True
    then show ?thesis
      using findPhonIdx_cases [of phonLevel]
      by (auto simp: interpolatePhonToSPL_outside row_40_phon row_60_phon)
  next
    case False
    with out have "12500 < frequency" by simp
    then show ?thesis
      using False findPhonIdx_cases [of phonLevel]
      by (auto simp: interpolatePhonToSPL_outside row_40_phon row_60_phon)
  qed
  from idx ext zero edge show ?thesis by blast
qed

theorem interpolatePhonToSPL_extrapolates_first_segment_witness:
  "((0::real) < 20 \<or> (12500::real) < 0)
   \<and> findFreqIdx 0 = 0
   \<and> interpolatePhonToSPL 0 40 = 99.8 - 4 * (93.1 - 99.8)
   \<and> interpolatePhonToSPL 0 40 \<noteq> 99.8"
proof -
  have h: "(0::real) < 20 \<or> (12500::real) < 0"
    by simp
  have row: "findPhonIdx 40 = 2"
    by (simp add: findPhonIdx_def)
  from interpolatePhonToSPL_extrapolates_first_segment [OF h, of 40] h show ?thesis
    by (simp add: row row_40_phon FREQUENCIES_def)
qed

subsection \<open>Mapping the curve onto the bins\<close>

lemma binIdxLoop_le:
  "idx \<le> NUM_FREQUENCIES - 1 \<Longrightarrow> binIdxLoop freq idx \<le> NUM_FREQUENCIES - 1"
proof (induction freq idx rule: binIdxLoop.induct)
  case (1 freq idx)
  then show ?case
    by (subst binIdxLoop.simps) auto
qed

lemma binIdxLoop_above:
  "12500 < freq \<Longrightarrow> idx \<le> NUM_FREQUENCIES - 1 \<Longrightarrow> binIdxLoop freq idx = NUM_FREQUENCIES - 1"
proof (induction freq idx rule: binIdxLoop.induct)
  case (1 freq idx)
  show ?case
  proof (cases "idx < NUM_FREQUENCIES - 1")
    case True
    then have "idx + 1 < NUM_FREQUENCIES"
      by simp
    from FREQUENCIES_nth_range [OF this] have "FREQUENCIES ! (idx + 1) < freq"
      using "1.prems" by simp
    with True "1.IH" "1.prems" show ?thesis
      by (subst binIdxLoop.simps) simp
  next
    case False
    with "1.prems" show ?thesis
      by (subst binIdxLoop.simps) simp
  qed
qed

lemma binIdxLoop_below: "freq \<le> 25 \<Longrightarrow> binIdxLoop freq 0 = 0"
  by (subst binIdxLoop.simps) (simp add: FREQUENCIES_def)

lemma binStep_binGain:
  assumes "NUM_FREQUENCIES \<le> length correctionCurve" "bin < length fftGains" "fftGains ! bin = 1"
  shows "binStep sampleRate fftSize correctionCurve bin fftGains =
           Some (fftGains[bin := binGain sampleRate fftSize correctionCurve bin])"
proof -
  have "binIdxLoop (binFrequency sampleRate fftSize bin) 0 < NUM_FREQUENCIES - 1 \<Longrightarrow>
        binIdxLoop (binFrequency sampleRate fftSize bin) 0 + 1 < length correctionCurve"
    using assms(1) by simp
  moreover have "fftGains[bin := 1] = fftGains"
    using assms(2,3) by (metis list_update_id)
  ultimately show ?thesis
    by (simp add: binStep_def binGain_def binFrequency_def Let_def)
qed

lemma binLoop_result:
  "NUM_FREQUENCIES \<le> length correctionCurve \<Longrightarrow>
         bin \<le> numBins \<Longrightarrow> length fftGains = numBins \<Longrightarrow>
         (\<forall>k. bin \<le> k \<and> k < numBins \<longrightarrow> fftGains ! k = 1) \<Longrightarrow>
         \<exists>gains. binLoop sampleRate fftSize correctionCurve numBins bin fftGains = Some gains
           \<and> length gains = numBins
           \<and> (\<forall>k<numBins. gains ! k =
                 (if k < bin then fftGains ! k else binGain sampleRate fftSize correctionCurve k))"
proof (induction sampleRate fftSize correctionCurve numBins bin fftGains rule: binLoop.induct)
  case (1 sampleRate fftSize correctionCurve numBins bin fftGains)
  show ?case
  proof (cases "bin < numBins")
    case False
    with "1.prems" show ?thesis
      by (subst binLoop.simps) simp
  next
    case True
    let ?g = "fftGains[bin := binGain sampleRate fftSize correctionCurve bin]"
    have step: "binStep sampleRate fftSize correctionCurve bin fftGains = Some ?g"
      using True "1.prems" by (intro binStep_binGain) simp_all
    have "\<exists>gains. binLoop sampleRate fftSize correctionCurve numBins (bin + 1) ?g = Some gains
           \<and> length gains = numBins
           \<and> (\<forall>k<numBins. gains ! k =
                 (if k < bin + 1 then ?g ! k else binGain sampleRate fftSize correctionCurve k))"
      using True "1.prems" by (intro "1.IH" [OF True step]) simp_all
    then obtain gains where
      g: "binLoop sampleRate fftSize correctionCurve numBins (bin + 1) ?g = Some gains"
         "length gains = numBins"
         "\<forall>k<numBins. gains ! k =
                 (if k < bin + 1 then ?g ! k else binGain sampleRate fftSize correctionCurve k)"
      by blast
    have "binLoop sampleRate fftSize correctionCurve numBins bin fftGains = Some gains"
      using True step g(1) by (subst binLoop.simps) simp
    moreover have "\<forall>k<numBins. gains ! k =
                 (if k < bin then fftGains ! k else binGain sampleRate fftSize correctionCurve k)"
      using g(3) True "1.prems"(3) by (auto simp: nth_list_update less_Suc_eq)
    ultimately show ?thesis using g(2) by blast
  qed
qed

lemma convertToFFTBins_result:
  assumes "NUM_FREQUENCIES \<le> length correctionCurve"
  shows "\<exists>gains. convertToFFTBins sampleRate fftSize correctionCurve = Some gains
           \<and> length gains = fftSize div 2 + 1
           \<and> (\<forall>k<fftSize div 2 + 1. gains ! k = binGain sampleRate fftSize correctionCurve k)"
proof -
  let ?numBins = "fftSize div 2 + 1"
  have "\<forall>k. 0 \<le> k \<and> k < ?numBins \<longrightarrow> replicate ?numBins (1::real) ! k = 1"
    by (simp del: replicate_Suc)
  with assms
  have "\<exists>gains. binLoop sampleRate fftSize correctionCurve ?numBins 0 (replicate ?numBins 1)
                   = Some gains
           \<and> length gains = ?numBins
           \<and> (\<forall>k<?numBins. gains ! k =
                 (if k < 0 then replicate ?numBins 1 ! k
                  else binGain sampleRate fftSize correctionCurve k))"
    by (intro binLoop_result) simp_all
  then show ?thesis
    by (simp add: convertToFFTBins_def Let_def del: replicate_Suc)
qed


lemma std_pow_no_underflow: "- 45 \<le> x \<Longrightarrow> std_pow 10 x = 10 powr x"
proof -
  assume "- 45 \<le> x"
  then have "(10::real) powr (- 45) \<le> 10 powr x"
    by (simp add: powr_mono)
  moreover have "(2::real) powi (- 150) < 10 powr (- 45)"
    by (simp add: powr_minus power_int_minus field_simps)
  ultimately have "(2::real) powi (- 150) < 10 powr x"
    by linarith
  then show ?thesis
    unfolding std_pow_def by simp
qed


lemma binGain_above:
  "12500 < binFrequency sampleRate fftSize bin \<Longrightarrow> binGain sampleRate fftSize correctionCurve bin = 1"
  by (simp add: binGain_def binIdxLoop_above)

lemma binGain_below:
  "binFrequency sampleRate fftSize bin < 20 \<Longrightarrow>
     binGain sampleRate fftSize correctionCurve bin =
       std_pow 10 ((correctionCurve ! 0
                    + (binFrequency sampleRate fftSize bin - 20) / 5
                      * (correctionCurve ! 1 - correctionCurve ! 0)) / 20)"
  by (simp add: binGain_def binIdxLoop_below NUM_FREQUENCIES_def FREQUENCIES_def)
















text \<open>
  Outside the table the two sides differ. A bin above 12.5 kHz ends the scan at the last
  index, fails the test \<open>idx < NUM_FREQUENCIES - 1\<close> and keeps its initial 1.0. A bin
  below 20 Hz ends the scan at index 0, passes the test and receives the extrapolation
  of the first segment.
\<close>

lemma convertToFFTBins_above_table:
  assumes "length correctionCurve = 29"
    and "convertToFFTBins sampleRate fftSize correctionCurve = Some gains"
    and "k < length gains" and "12500 < binFrequency sampleRate fftSize k"
  shows "gains ! k = 1"
proof -
  have "NUM_FREQUENCIES \<le> length correctionCurve"
    using assms(1) by (simp add: NUM_FREQUENCIES_def)
  from convertToFFTBins_result [OF this, of sampleRate fftSize] assms(2,3)
  have "gains ! k = binGain sampleRate fftSize correctionCurve k"
    by auto
  with assms(4) show ?thesis
    by (simp add: binGain_above)
qed

lemma convertToFFTBins_below_table:
  assumes "length correctionCurve = 29"
    and "convertToFFTBins sampleRate fftSize correctionCurve = Some gains"
    and "k < length gains" and "binFrequency sampleRate fftSize k < 20"
  shows "gains ! k =
           std_pow 10 ((correctionCurve ! 0
                        + (binFrequency sampleRate fftSize k - 20) / 5
                          * (correctionCurve ! 1 - correctionCurve ! 0)) / 20)"
proof -
  have "NUM_FREQUENCIES \<le> length correctionCurve"
    using assms(1) by (simp add: NUM_FREQUENCIES_def)
  from convertToFFTBins_result [OF this, of sampleRate fftSize] assms(2,3)
  have "gains ! k = binGain sampleRate fftSize correctionCurve k"
    by auto
  with assms(4) show ?thesis
    by (simp add: binGain_below)
qed

lemma correction_40_60_first_entries:
  "calculateCorrectionCurve 40 60 ! 0 = 9.7" "calculateCorrectionCurve 40 60 ! Suc 0 = 10.6"
  by code_simp+

text \<open>
  Claim C1 asks for gain exactly 1 in every bin below 20 Hz or above 12.5 kHz. At
  sample rate 48000, transform size 2048 and the correction curve from 40 phon to 60
  phon, bin 0 has centre frequency 0 Hz, below the first table frequency, and the
  function gives it the gain \<open>10 powr (6.1 / 20)\<close>, which is not 1.
\<close>

theorem convertToFFTBins_DC_bin_extrapolated:
  "\<exists>gains. convertToFFTBins 48000 2048 (calculateCorrectionCurve 40 60) = Some gains
     \<and> binFrequency 48000 2048 0 = 0
     \<and> gains ! 0 = 10 powr (6.1 / 20)
     \<and> gains ! 0 \<noteq> 1"
proof -
  have len: "length (calculateCorrectionCurve 40 60) = 29"
    by (simp add: calculateCorrectionCurve_map NUM_FREQUENCIES_def)
  then have "NUM_FREQUENCIES \<le> length (calculateCorrectionCurve 40 60)"
    by (simp add: NUM_FREQUENCIES_def)
  from convertToFFTBins_result [OF this, of 48000 2048] obtain gains where
    g: "convertToFFTBins 48000 2048 (calculateCorrectionCurve 40 60) = Some gains"
       "length gains = 1025"
       "gains ! 0 = binGain 48000 2048 (calculateCorrectionCurve 40 60) 0"
    by auto
  have f0: "binFrequency 48000 2048 0 = 0"
    by (simp add: binFrequency_def)
  have "gains ! 0 = 10 powr (6.1 / 20)"
    using convertToFFTBins_below_table [OF len g(1), of 0] g(2)
    by (simp add: f0 correction_40_60_first_entries std_pow_no_underflow)
  moreover have "(10::real) powr (6.1 / 20) \<noteq> 1"
    by simp
  ultimately show ?thesis
    using g(1) f0 by simp
qed

subsection \<open>The adaptive compensation factor\<close>

lemma std_clamp_max_min: "lo \<le> hi \<Longrightarrow> std_clamp v lo hi = max lo (min hi v)"
  by (auto simp: std_clamp_def)

lemma factor_unclamped_bounds:
  "0 \<le> (x::real) \<Longrightarrow> 0.2 < 0.5 - 0.3 * tanh x \<and> 0.5 - 0.3 * tanh x \<le> 0.5"
  using tanh_real_lt_1 [of x] tanh_real_nonneg_iff [of x] by simp

text \<open>
  Claim C8. For every listening duration of at least 0 seconds,
  \<open>getAdaptiveCompensationFactor\<close> equals \<open>0.5 - 0.3 * tanh (minutes / 10)\<close> clamped to
  \<open>[0.2, 0.5]\<close>, with \<open>minutes = listeningSeconds / 60\<close>; the result lies in
  \<open>[0.2, 0.5]\<close>, it is 0.5 at 0 seconds, and it does not increase when the duration
  grows.
\<close>

theorem getAdaptiveCompensationFactor_spec:
  "0 \<le> listeningSeconds \<Longrightarrow> listeningSeconds \<le> later \<Longrightarrow>
     getAdaptiveCompensationFactor listeningSeconds =
       max 0.2 (min 0.5 (0.5 - 0.3 * tanh (listeningSeconds / 60 / 10)))
     \<and> 0.2 \<le> getAdaptiveCompensationFactor listeningSeconds
     \<and> getAdaptiveCompensationFactor listeningSeconds \<le> 0.5
     \<and> getAdaptiveCompensationFactor 0 = 0.5
     \<and> getAdaptiveCompensationFactor later \<le> getAdaptiveCompensationFactor listeningSeconds"
proof -
  assume nonneg: "0 \<le> listeningSeconds" and le: "listeningSeconds \<le> later"
  have eq: "getAdaptiveCompensationFactor d = max 0.2 (min 0.5 (0.5 - 0.3 * tanh (d / 60 / 10)))"
    for d
    by (simp add: getAdaptiveCompensationFactor_def std_clamp_max_min)
  have plain: "getAdaptiveCompensationFactor d = 0.5 - 0.3 * tanh (d / 60 / 10)" if "0 \<le> d" for d
  proof -
    have "0 \<le> d / 60 / 10" using that by simp
    from factor_unclamped_bounds [OF this] show ?thesis
      by (simp add: eq)
  qed
  have bounds: "0.2 \<le> getAdaptiveCompensationFactor listeningSeconds"
    "getAdaptiveCompensationFactor listeningSeconds \<le> 0.5"
    unfolding eq by (simp_all add: max_def min_def)
  have zero: "getAdaptiveCompensationFactor 0 = 0.5"
    by (simp add: plain)
  have "tanh (listeningSeconds / 60 / 10) \<le> tanh (later / 60 / 10)"
    using le by simp
  then have mono: "getAdaptiveCompensationFactor later \<le> getAdaptiveCompensationFactor listeningSeconds"
    using nonneg le by (simp add: plain)
  from eq bounds zero mono show ?thesis by blast
qed

theorem getAdaptiveCompensationFactor_spec_witness:
  "(0::real) \<le> 0 \<and> (0::real) \<le> 600
   \<and> getAdaptiveCompensationFactor 0 = 0.5
   \<and> getAdaptiveCompensationFactor 600 \<le> getAdaptiveCompensationFactor 0
   \<and> 0.2 \<le> getAdaptiveCompensationFactor 0"
proof -
  have h1: "(0::real) \<le> 0" and h2: "(0::real) \<le> 600"
    by simp_all
  from getAdaptiveCompensationFactor_spec [OF h1 h2] h1 h2 show ?thesis
    by blast
qed

subsection \<open>Applying the gains to a spectrum\<close>

lemma applyStep_plain:
  assumes "bin < length gains" "bin < length sp" "\<not> (0 < bin \<and> bin < fftSize div 2)"
  shows "applyStep fftSize gains a bin (sp, mlog) =
           Some (sp[bin := cscale (sp ! bin) (1 + (gains ! bin - 1) * a)], mlog)"
  using assms by (simp add: applyStep_def Let_def)

lemma applyStep_mirror:
  assumes "bin < length gains" "length sp = fftSize" "0 < bin" "bin < fftSize div 2"
  shows "applyStep fftSize gains a bin (sp, mlog) =
           Some (sp[bin := cscale (sp ! bin) (1 + (gains ! bin - 1) * a),
                    fftSize - bin := cnj (cscale (sp ! bin) (1 + (gains ! bin - 1) * a))],
                 mlog @ [fftSize - bin])"
proof -
  have "bin < length sp" "fftSize - bin < length sp"
    using assms by simp_all
  then show ?thesis
    using assms by (simp add: applyStep_def Let_def)
qed

lemma applyLoop_result:
  "length sp0 = fftSize \<Longrightarrow> 0 < fftSize \<Longrightarrow> fftSize div 2 + 1 \<le> length gains \<Longrightarrow>
   bin \<le> fftSize div 2 + 1 \<Longrightarrow> length (fst st) = fftSize \<Longrightarrow>
   (\<forall>k. bin \<le> k \<and> k \<le> fftSize div 2 \<longrightarrow> fst st ! k = sp0 ! k) \<Longrightarrow>
   \<exists>out mirrored. applyLoop fftSize gains a bin st = Some (out, mirrored)
     \<and> length out = fftSize
     \<and> (\<forall>k. bin \<le> k \<and> k \<le> fftSize div 2 \<longrightarrow> out ! k = correctedBin sp0 gains a k)
     \<and> (\<forall>k. bin \<le> k \<and> 0 < k \<and> k < fftSize div 2 \<longrightarrow>
            out ! (fftSize - k) = cnj (correctedBin sp0 gains a k))
     \<and> (\<forall>j<fftSize. j < bin \<or> (fftSize div 2 < j \<and> (fftSize - j < bin \<or> fftSize div 2 \<le> fftSize - j))
            \<longrightarrow> out ! j = fst st ! j)
     \<and> mirrored = snd st @ map (\<lambda>k. fftSize - k) [max bin 1..<fftSize div 2]"
proof (induction fftSize gains a bin st rule: applyLoop.induct)
  case (1 fftSize gains a bin st)
  obtain sp mlog where st: "st = (sp, mlog)"
    by (cases st)
  note prems = "1.prems" [unfolded st fst_conv snd_conv]
  show ?case
  proof (cases "bin < fftSize div 2 + 1")
    case False
    with prems have "bin = fftSize div 2 + 1" by simp
    then show ?thesis
      using prems by (subst applyLoop.simps) (auto simp: st)
  next
    case True
    define z where "z = cscale (sp ! bin) (1 + (gains ! bin - 1) * a)"
    have bin_gains: "bin < length gains" and bin_sp: "bin < length sp"
      using True prems by simp_all
    have z: "z = correctedBin sp0 gains a bin"
      using True prems by (simp add: z_def correctedBin_def)
    define st' where "st' = (if 0 < bin \<and> bin < fftSize div 2
        then (sp[bin := z, fftSize - bin := cnj z], mlog @ [fftSize - bin])
        else (sp[bin := z], mlog))"
    have step: "applyStep fftSize gains a bin st = Some st'"
      using applyStep_plain [OF bin_gains bin_sp, of fftSize a mlog]
        applyStep_mirror [OF bin_gains, of sp fftSize a mlog] prems(5)
      by (auto simp: st st'_def z_def)
    have len': "length (fst st') = fftSize"
      using prems by (simp add: st'_def)
    have lower': "\<forall>k. bin + 1 \<le> k \<and> k \<le> fftSize div 2 \<longrightarrow> fst st' ! k = sp0 ! k"
      using prems by (auto simp: st'_def nth_list_update)
    have "\<exists>out mirrored. applyLoop fftSize gains a (bin + 1) st' = Some (out, mirrored)
     \<and> length out = fftSize
     \<and> (\<forall>k. bin + 1 \<le> k \<and> k \<le> fftSize div 2 \<longrightarrow> out ! k = correctedBin sp0 gains a k)
     \<and> (\<forall>k. bin + 1 \<le> k \<and> 0 < k \<and> k < fftSize div 2 \<longrightarrow>
            out ! (fftSize - k) = cnj (correctedBin sp0 gains a k))
     \<and> (\<forall>j<fftSize. j < bin + 1 \<or> (fftSize div 2 < j \<and> (fftSize - j < bin + 1 \<or> fftSize div 2 \<le> fftSize - j))
            \<longrightarrow> out ! j = fst st' ! j)
     \<and> mirrored = snd st' @ map (\<lambda>k. fftSize - k) [max (bin + 1) 1..<fftSize div 2]"
      using True prems(1-3) len' lower' by (intro "1.IH" [OF True step]) simp_all
    then obtain out mirrored where
      run: "applyLoop fftSize gains a (bin + 1) st' = Some (out, mirrored)"
      and len: "length out = fftSize"
      and low: "\<forall>k. bin + 1 \<le> k \<and> k \<le> fftSize div 2 \<longrightarrow> out ! k = correctedBin sp0 gains a k"
      and mir: "\<forall>k. bin + 1 \<le> k \<and> 0 < k \<and> k < fftSize div 2 \<longrightarrow>
            out ! (fftSize - k) = cnj (correctedBin sp0 gains a k)"
      and frame: "\<forall>j<fftSize. j < bin + 1 \<or> (fftSize div 2 < j \<and> (fftSize - j < bin + 1 \<or> fftSize div 2 \<le> fftSize - j))
            \<longrightarrow> out ! j = fst st' ! j"
      and logm: "mirrored = snd st' @ map (\<lambda>k. fftSize - k) [max (bin + 1) 1..<fftSize div 2]"
      by blast
    have run0: "applyLoop fftSize gains a bin st = Some (out, mirrored)"
      using True step run by (subst applyLoop.simps) simp
    have at_bin: "fst st' ! bin = z"
      using bin_sp prems(5) by (auto simp: st'_def nth_list_update)
    have out_bin: "out ! bin = z"
      using frame True prems(2) at_bin by auto
    have low0: "\<forall>k. bin \<le> k \<and> k \<le> fftSize div 2 \<longrightarrow> out ! k = correctedBin sp0 gains a k"
    proof (intro allI impI)
      fix k assume k: "bin \<le> k \<and> k \<le> fftSize div 2"
      show "out ! k = correctedBin sp0 gains a k"
      proof (cases "k = bin")
        case True
        with out_bin z show ?thesis by simp
      next
        case False
        with k have "bin + 1 \<le> k \<and> k \<le> fftSize div 2" by simp
        with low show ?thesis by blast
      qed
    qed
    have mir_bin: "out ! (fftSize - bin) = cnj z" if "0 < bin" "bin < fftSize div 2"
    proof -
      have "fst st' ! (fftSize - bin) = cnj z"
        using that prems(5) by (simp add: st'_def)
      moreover have "out ! (fftSize - bin) = fst st' ! (fftSize - bin)"
        using frame that by auto
      ultimately show ?thesis by simp
    qed
    have mir0: "\<forall>k. bin \<le> k \<and> 0 < k \<and> k < fftSize div 2 \<longrightarrow>
            out ! (fftSize - k) = cnj (correctedBin sp0 gains a k)"
    proof (intro allI impI)
      fix k assume k: "bin \<le> k \<and> 0 < k \<and> k < fftSize div 2"
      show "out ! (fftSize - k) = cnj (correctedBin sp0 gains a k)"
      proof (cases "k = bin")
        case True
        with mir_bin z k show ?thesis by simp
      next
        case False
        with k have "bin + 1 \<le> k \<and> 0 < k \<and> k < fftSize div 2" by simp
        with mir show ?thesis by blast
      qed
    qed
    have frame0: "\<forall>j<fftSize. j < bin \<or> (fftSize div 2 < j \<and> (fftSize - j < bin \<or> fftSize div 2 \<le> fftSize - j))
            \<longrightarrow> out ! j = sp ! j"
    proof (intro allI impI)
      fix j assume j: "j < fftSize"
        and c: "j < bin \<or> (fftSize div 2 < j \<and> (fftSize - j < bin \<or> fftSize div 2 \<le> fftSize - j))"
      have "out ! j = fst st' ! j"
        using frame j c by auto
      moreover have "j \<noteq> bin"
        using c True by auto
      moreover have "j \<noteq> fftSize - bin" if "0 < bin" "bin < fftSize div 2"
        using c that j by auto
      ultimately show "out ! j = sp ! j"
        by (auto simp: st'_def)
    qed
    have mlog0: "mirrored = mlog @ map (\<lambda>k. fftSize - k) [max bin 1..<fftSize div 2]"
    proof (cases "0 < bin \<and> bin < fftSize div 2")
      case True
      then have "max bin 1 = bin" "max (bin + 1) 1 = bin + 1"
        by simp_all
      with True have "[max bin 1..<fftSize div 2] = bin # [max (bin + 1) 1..<fftSize div 2]"
        by (simp add: upt_conv_Cons)
      with True logm show ?thesis
        by (simp add: st'_def)
    next
      case False
      then have "[max bin 1..<fftSize div 2] = [max (bin + 1) 1..<fftSize div 2]"
        by (cases "bin = 0") simp_all
      with False logm show ?thesis
        by (simp add: st'_def)
    qed
    from run0 len low0 mir0 frame0 mlog0 show ?thesis
      by (simp add: st)
  qed
qed


lemma cscale_one: "cscale z 1 = z"
  by (simp add: cscale_def)

lemma correctedBin_zero_strength: "correctedBin spectrum gains 0 bin = spectrum ! bin"
  by (simp add: correctedBin_def cscale_one)

lemma applyCorrection_result:
  assumes "length spectrum = fftSize" "0 < fftSize" "fftSize div 2 + 1 \<le> length gains"
  shows "\<exists>out mirrored. applyCorrection fftSize spectrum gains a = Some (out, mirrored)
     \<and> length out = fftSize
     \<and> (\<forall>k. k \<le> fftSize div 2 \<longrightarrow> out ! k = correctedBin spectrum gains a k)
     \<and> (\<forall>k. 0 < k \<and> k < fftSize div 2 \<longrightarrow>
            out ! (fftSize - k) = cnj (correctedBin spectrum gains a k))
     \<and> (\<forall>j<fftSize. fftSize div 2 < j \<and> fftSize div 2 \<le> fftSize - j \<longrightarrow> out ! j = spectrum ! j)
     \<and> mirrored = map (\<lambda>k. fftSize - k) [1..<fftSize div 2]"
  using applyLoop_result [OF assms, of 0 "(spectrum, [])" a] assms(1)
  by (simp add: applyCorrection_def)

text \<open>
  Claim C4. After \<open>applyCorrection\<close> on a spectrum of length \<open>fftSize\<close>, with
  \<open>B = fftSize div 2 + 1\<close> gains: for every \<open>k\<close> with \<open>0 < k < B - 1\<close> the element
  \<open>fftSize - k\<close> is exactly the complex conjugate of element \<open>k\<close>; the mirroring
  assignment writes the indices \<open>fftSize - k\<close> for \<open>k = 1, ..., B - 2\<close> and no others,
  so it writes neither bin 0 (DC) nor bin \<open>B - 1\<close> (Nyquist).
\<close>

theorem applyCorrection_conjugate_symmetry:
  "length spectrum = fftSize \<Longrightarrow> 0 < fftSize \<Longrightarrow> length gains = fftSize div 2 + 1 \<Longrightarrow>
     \<exists>out mirrored. applyCorrection fftSize spectrum gains strength = Some (out, mirrored)
       \<and> (\<forall>k. 0 < k \<and> k < fftSize div 2 \<longrightarrow> out ! (fftSize - k) = cnj (out ! k))
       \<and> mirrored = map (\<lambda>k. fftSize - k) [1..<fftSize div 2]
       \<and> 0 \<notin> set mirrored \<and> fftSize div 2 \<notin> set mirrored"
proof -
  assume a: "length spectrum = fftSize" "0 < fftSize" "length gains = fftSize div 2 + 1"
  then have "fftSize div 2 + 1 \<le> length gains"
    by simp
  from applyCorrection_result [OF a(1,2) this, of strength] obtain out mirrored where
    r: "applyCorrection fftSize spectrum gains strength = Some (out, mirrored)"
    and low: "\<forall>k. k \<le> fftSize div 2 \<longrightarrow> out ! k = correctedBin spectrum gains strength k"
    and mir: "\<forall>k. 0 < k \<and> k < fftSize div 2 \<longrightarrow>
            out ! (fftSize - k) = cnj (correctedBin spectrum gains strength k)"
    and m: "mirrored = map (\<lambda>k. fftSize - k) [1..<fftSize div 2]"
    by blast
  have sym: "\<forall>k. 0 < k \<and> k < fftSize div 2 \<longrightarrow> out ! (fftSize - k) = cnj (out ! k)"
    using low mir by simp
  have "0 \<notin> set mirrored"
    unfolding m by auto
  moreover have "fftSize div 2 \<notin> set mirrored"
    unfolding m by auto
  ultimately show ?thesis
    using r sym m by blast
qed

theorem applyCorrection_conjugate_symmetry_witness:
  "length [1, \<i>, 2, 3, 4, 5, 6, \<i>] = 8 \<and> (0::nat) < 8 \<and> length [1, 2, 3, 4, 5 :: real] = 8 div 2 + 1
   \<and> (\<exists>out mirrored. applyCorrection 8 [1, \<i>, 2, 3, 4, 5, 6, \<i>] [1, 2, 3, 4, 5] 1 = Some (out, mirrored)
       \<and> (\<forall>k. 0 < k \<and> k < 8 div 2 \<longrightarrow> out ! (8 - k) = cnj (out ! k))
       \<and> mirrored = map (\<lambda>k. 8 - k) [1..<8 div 2]
       \<and> 0 \<notin> set mirrored \<and> 8 div 2 \<notin> set mirrored)"
proof -
  have h1: "length [1, \<i>, 2, 3, 4, 5, 6, \<i>] = 8" and h2: "(0::nat) < 8"
    and h3: "length [1, 2, 3, 4, 5 :: real] = 8 div 2 + 1"
    by simp_all
  from applyCorrection_conjugate_symmetry [OF h1 h2 h3, of 1] h1 h2 h3 show ?thesis
    by blast
qed

text \<open>
  Claim C3 says that strength 0 leaves every element of the spectrum unchanged, the
  upper half included. It fails on a spectrum that is not conjugate symmetric: with
  \<open>fftSize = 4\<close> and the spectrum \<open>[1, \<i>, 1, \<i>]\<close>, element 3 is overwritten with the
  conjugate of element 1.
\<close>

theorem applyCorrection_zero_strength_overwrites_mirror:
  "applyCorrection 4 [1, \<i>, 1, \<i>] [1, 1, 1] 0 = Some ([1, \<i>, 1, - \<i>], [3])
   \<and> [1, \<i>, 1, - \<i>] \<noteq> [1, \<i>, 1, \<i>]"
  by code_simp

text \<open>
  Claim C3, amended. For every spectrum of length \<open>fftSize\<close>, every gains vector of length
  \<open>B = fftSize div 2 + 1\<close> and strength 0, \<open>applyCorrection\<close> leaves the bins
  \<open>0, ..., B - 1\<close> unchanged and sets element \<open>fftSize - k\<close> to the conjugate of
  element \<open>k\<close> for \<open>0 < k < B - 1\<close>; the whole array is unchanged exactly when the
  input already has this conjugate symmetry.
\<close>

theorem applyCorrection_zero_strength:
  "length spectrum = fftSize \<Longrightarrow> 0 < fftSize \<Longrightarrow> length gains = fftSize div 2 + 1 \<Longrightarrow>
     \<exists>out mirrored. applyCorrection fftSize spectrum gains 0 = Some (out, mirrored)
       \<and> length out = fftSize
       \<and> (\<forall>k. k \<le> fftSize div 2 \<longrightarrow> out ! k = spectrum ! k)
       \<and> (\<forall>k. 0 < k \<and> k < fftSize div 2 \<longrightarrow> out ! (fftSize - k) = cnj (spectrum ! k))
       \<and> (out = spectrum \<longleftrightarrow>
            (\<forall>k. 0 < k \<and> k < fftSize div 2 \<longrightarrow> spectrum ! (fftSize - k) = cnj (spectrum ! k)))"
proof -
  assume a: "length spectrum = fftSize" "0 < fftSize" "length gains = fftSize div 2 + 1"
  then have "fftSize div 2 + 1 \<le> length gains"
    by simp
  from applyCorrection_result [OF a(1,2) this, of 0] obtain out mirrored where
    r: "applyCorrection fftSize spectrum gains 0 = Some (out, mirrored)"
    and len: "length out = fftSize"
    and low: "\<forall>k. k \<le> fftSize div 2 \<longrightarrow> out ! k = spectrum ! k"
    and mir: "\<forall>k. 0 < k \<and> k < fftSize div 2 \<longrightarrow> out ! (fftSize - k) = cnj (spectrum ! k)"
    and frame: "\<forall>j<fftSize. fftSize div 2 < j \<and> fftSize div 2 \<le> fftSize - j \<longrightarrow> out ! j = spectrum ! j"
    unfolding correctedBin_zero_strength by blast
  have "out = spectrum"
    if sym: "\<forall>k. 0 < k \<and> k < fftSize div 2 \<longrightarrow> spectrum ! (fftSize - k) = cnj (spectrum ! k)"
  proof (rule nth_equalityI)
    show "length out = length spectrum"
      using len a(1) by simp
  next
    fix j assume "j < length out"
    then have j: "j < fftSize"
      using len by simp
    show "out ! j = spectrum ! j"
    proof (cases "j \<le> fftSize div 2")
      case True
      with low show ?thesis by simp
    next
      case False
      show ?thesis
      proof (cases "fftSize div 2 \<le> fftSize - j")
        case True
        with False frame j show ?thesis by simp
      next
        case below: False
        then have k: "0 < fftSize - j" "fftSize - j < fftSize div 2" "fftSize - (fftSize - j) = j"
          using j by simp_all
        from mir k(1,2) have "out ! (fftSize - (fftSize - j)) = cnj (spectrum ! (fftSize - j))"
          by blast
        moreover from sym k(1,2) have "spectrum ! (fftSize - (fftSize - j)) = cnj (spectrum ! (fftSize - j))"
          by blast
        ultimately show ?thesis
          by (simp add: k(3))
      qed
    qed
  qed
  moreover have "\<forall>k. 0 < k \<and> k < fftSize div 2 \<longrightarrow> spectrum ! (fftSize - k) = cnj (spectrum ! k)"
    if "out = spectrum"
    using mir that by simp
  ultimately have "out = spectrum \<longleftrightarrow>
            (\<forall>k. 0 < k \<and> k < fftSize div 2 \<longrightarrow> spectrum ! (fftSize - k) = cnj (spectrum ! k))"
    by blast
  with r len low mir show ?thesis
    by blast
qed

theorem applyCorrection_zero_strength_witness:
  "length [1, \<i>, 1, \<i>] = 4 \<and> (0::nat) < 4 \<and> length [1, 1, 1 :: real] = 4 div 2 + 1
   \<and> (\<exists>out mirrored. applyCorrection 4 [1, \<i>, 1, \<i>] [1, 1, 1] 0 = Some (out, mirrored)
       \<and> length out = 4
       \<and> (\<forall>k. k \<le> 4 div 2 \<longrightarrow> out ! k = [1, \<i>, 1, \<i>] ! k)
       \<and> (\<forall>k. 0 < k \<and> k < 4 div 2 \<longrightarrow> out ! (4 - k) = cnj ([1, \<i>, 1, \<i>] ! k)))"
proof -
  have h1: "length [1, \<i>, 1, \<i>] = 4" and h2: "(0::nat) < 4"
    and h3: "length [1, 1, 1 :: real] = 4 div 2 + 1"
    by simp_all
  from applyCorrection_zero_strength [OF h1 h2 h3] h1 h2 h3 show ?thesis
    by blast
qed

subsection \<open>Smoothing\<close>

lemma smoothLoop_result:
  "length newGains \<le> length currentGains \<Longrightarrow>
     \<exists>out. smoothLoop currentGains s i newGains = Some out
       \<and> length out = length newGains
       \<and> (\<forall>k<length newGains. out ! k =
             (if k < i then newGains ! k else currentGains ! k * s + newGains ! k * (1 - s)))"
proof (induction currentGains s i newGains rule: smoothLoop.induct)
  case (1 currentGains s i newGains)
  show ?case
  proof (cases "i < length newGains")
    case False
    then show ?thesis
      by (subst smoothLoop.simps) simp
  next
    case True
    let ?new = "newGains[i := currentGains ! i * s + newGains ! i * (1 - s)]"
    have cur: "i < length currentGains"
      using True "1.prems" by simp
    have "\<exists>out. smoothLoop currentGains s (i + 1) ?new = Some out
       \<and> length out = length ?new
       \<and> (\<forall>k<length ?new. out ! k =
             (if k < i + 1 then ?new ! k else currentGains ! k * s + ?new ! k * (1 - s)))"
      using "1.prems" by (intro "1.IH" [OF True cur]) simp
    then obtain out where
      run: "smoothLoop currentGains s (i + 1) ?new = Some out"
      and len: "length out = length newGains"
      and vals: "\<forall>k<length newGains. out ! k =
             (if k < i + 1 then ?new ! k else currentGains ! k * s + ?new ! k * (1 - s))"
      by auto
    have "smoothLoop currentGains s i newGains = Some out"
      using True cur run by (subst smoothLoop.simps) simp
    moreover have "\<forall>k<length newGains. out ! k =
             (if k < i then newGains ! k else currentGains ! k * s + newGains ! k * (1 - s))"
      using vals by (auto simp: nth_list_update less_Suc_eq)
    ultimately show ?thesis
      using len by blast
  qed
qed

lemma smoothTransition_same_real: "smoothTransition g g s = Some g"
proof -
  from smoothLoop_result [of g g s 0] obtain out where
    run: "smoothLoop g s 0 g = Some out" and len: "length out = length g"
    and vals: "\<forall>k<length g. out ! k = g ! k * s + g ! k * (1 - s)"
    by auto
  have "out = g"
  proof (rule nth_equalityI)
    show "length out = length g" by (rule len)
  next
    fix k assume "k < length out"
    with len vals have "out ! k = g ! k * s + g ! k * (1 - s)"
      by simp
    then show "out ! k = g ! k"
      by (simp add: algebra_simps)
  qed
  with run show ?thesis
    by (simp add: smoothTransition_def)
qed

subsection \<open>Smoothing in binary32 arithmetic\<close>

text \<open>
  The binary32 operations against real arithmetic. \<open>round24\<close> returns a significand of at
  most 24 bits (\<open>2 ^ 24\<close> itself can arise when rounding carries) and moves the value by
  at most half a unit of the last place of its result; \<open>f32_mul\<close> and \<open>f32_add\<close> apply it
  to the exact product and the exact sum.
\<close>

lemma f32_val_shift: "f32_val (m * 2 ^ n, e) = f32_val (m, e + int n)"
  by (simp add: f32_val_def power_int_add)

lemma round24_integer_error:
  fixes m :: int and K :: nat
  assumes "0 < K"
  defines "q \<equiv> m div 2 ^ K" and "r \<equiv> m mod 2 ^ K"
  defines "q' \<equiv> (if r > 2 ^ (K - 1) \<or> (r = 2 ^ (K - 1) \<and> odd q) then q + 1 else q)"
  shows "\<bar>q' * 2 ^ K - m\<bar> \<le> 2 ^ (K - 1)"
proof -
  have m: "m = q * 2 ^ K + r"
    unfolding q_def r_def by (rule div_mult_mod_eq [symmetric])
  have r: "0 \<le> r" "r < 2 ^ K"
    by (simp_all add: r_def)
  have two: "(2::int) ^ K = 2 * 2 ^ (K - 1)"
    using assms(1) by (cases K) simp_all
  show ?thesis
  proof (cases "r > 2 ^ (K - 1) \<or> (r = 2 ^ (K - 1) \<and> odd q)")
    case True
    then have "q' * 2 ^ K - m = 2 ^ K - r"
      by (simp add: q'_def m algebra_simps)
    with True r two show ?thesis by auto
  next
    case False
    then have "q' * 2 ^ K - m = - r"
      by (simp add: q'_def m)
    with False r show ?thesis by auto
  qed
qed

lemma round24_error:
  "\<bar>f32_val (round24 x) - f32_val x\<bar> \<le> 2 powi (snd x + (bitlen \<bar>fst x\<bar> - 24) - 1)
   \<or> round24 x = x"
proof (cases "bitlen \<bar>fst x\<bar> - 24 \<le> 0")
  case True
  then show ?thesis
    by (simp add: round24_def Let_def)
next
  case False
  define K where "K = nat (bitlen \<bar>fst x\<bar> - 24)"
  define q' where "q' = fst (round24 x)"
  have K: "0 < K" "int K = bitlen \<bar>fst x\<bar> - 24"
    using False by (simp_all add: K_def)
  have nats: "nat (bitlen \<bar>fst x\<bar> - 24) = K" "nat (bitlen \<bar>fst x\<bar> - 24 - 1) = K - 1"
    using K(2) by linarith+
  have r: "round24 x = (q', snd x + int K)"
    using False by (simp add: round24_def Let_def q'_def K(2))
  have "q' = (if fst x mod 2 ^ K > 2 ^ (K - 1)
                 \<or> (fst x mod 2 ^ K = 2 ^ (K - 1) \<and> odd (fst x div 2 ^ K))
              then fst x div 2 ^ K + 1 else fst x div 2 ^ K)"
    using False unfolding q'_def round24_def Let_def nats by simp
  then have "\<bar>q' * 2 ^ K - fst x\<bar> \<le> 2 ^ (K - 1)"
    using round24_integer_error [OF K(1), of "fst x"] by simp
  then have "\<bar>real_of_int (q' * 2 ^ K - fst x)\<bar> \<le> 2 ^ (K - 1)"
    by (metis of_int_abs of_int_le_iff of_int_numeral of_int_power)
  then have bound:
    "\<bar>real_of_int (q' * 2 ^ K - fst x)\<bar> * 2 powi (snd x) \<le> 2 ^ (K - 1) * 2 powi (snd x)"
    by (intro mult_right_mono) simp_all
  have diff: "f32_val (round24 x) - f32_val x = real_of_int (q' * 2 ^ K - fst x) * 2 powi (snd x)"
    by (simp add: r f32_val_def power_int_add algebra_simps)
  have expo: "(2::real) ^ (K - 1) * 2 powi (snd x) = 2 powi (snd x + (bitlen \<bar>fst x\<bar> - 24) - 1)"
  proof -
    have "snd x + (bitlen \<bar>fst x\<bar> - 24) - 1 = int (K - 1) + snd x"
      using K by simp
    then have "(2::real) powi (snd x + (bitlen \<bar>fst x\<bar> - 24) - 1) = 2 powi (int (K - 1) + snd x)"
      by (rule arg_cong)
    also have "\<dots> = 2 ^ (K - 1) * 2 powi (snd x)"
      by (simp add: power_int_add)
    finally show ?thesis by simp
  qed
  have "\<bar>f32_val (round24 x) - f32_val x\<bar> = \<bar>real_of_int (q' * 2 ^ K - fst x)\<bar> * 2 powi (snd x)"
    unfolding diff by (simp add: abs_mult)
  also note bound
  also note expo
  finally show ?thesis
    by (rule disjI1)
qed


lemma round24_half_unit:
  "\<bar>f32_val (round24 x) - f32_val x\<bar> * 2 \<le> 2 powi (snd (round24 x))"
proof (cases "bitlen \<bar>fst x\<bar> - 24 \<le> 0")
  case True
  then show ?thesis
    by (simp add: round24_def Let_def)
next
  case False
  define n where "n = snd x + (bitlen \<bar>fst x\<bar> - 24) - 1"
  have e: "snd (round24 x) = n + 1" and ne: "round24 x \<noteq> x"
    using False by (auto simp: round24_def Let_def prod_eq_iff n_def)
  have "(2::real) powi (n + 1) = 2 powi n * 2"
    by (rule power_int_add_1) simp
  moreover have "\<bar>f32_val (round24 x) - f32_val x\<bar> \<le> 2 powi n"
    using round24_error [of x] ne unfolding n_def by blast
  ultimately show ?thesis
    unfolding e by simp
qed

lemma f32_val_product: "f32_val (fst a * fst b, snd a + snd b) = f32_val a * f32_val b"
  by (simp add: f32_val_def power_int_add)

lemma f32_val_align:
  "e \<le> snd a \<Longrightarrow> f32_val (fst a * 2 ^ nat (snd a - e), e) = f32_val a"
proof -
  assume le: "e \<le> snd a"
  define K where "K = nat (snd a - e)"
  have "snd a = int K + e"
    using le by (simp add: K_def)
  then have "(2::real) powi (snd a) = 2 powi (int K + e)"
    by (rule arg_cong)
  also have "\<dots> = 2 ^ K * 2 powi e"
    by (simp add: power_int_add)
  finally have "(2::real) powi (snd a) = 2 ^ K * 2 powi e" .
  then show ?thesis
    unfolding f32_val_def K_def [symmetric] by simp
qed

lemma f32_val_sum:
  "f32_val (fst a * 2 ^ nat (snd a - min (snd a) (snd b))
            + fst b * 2 ^ nat (snd b - min (snd a) (snd b)), min (snd a) (snd b))
     = f32_val a + f32_val b"
proof -
  let ?e = "min (snd a) (snd b)"
  have "f32_val (fst a * 2 ^ nat (snd a - ?e) + fst b * 2 ^ nat (snd b - ?e), ?e)
          = f32_val (fst a * 2 ^ nat (snd a - ?e), ?e) + f32_val (fst b * 2 ^ nat (snd b - ?e), ?e)"
    by (simp add: f32_val_def algebra_simps)
  also have "\<dots> = f32_val a + f32_val b"
    by (simp add: f32_val_align)
  finally show ?thesis .
qed

lemma f32_mul_rounds_product:
  "\<bar>f32_val (f32_mul a b) - f32_val a * f32_val b\<bar> * 2 \<le> 2 powi (snd (f32_mul a b))"
  using round24_half_unit [of "(fst a * fst b, snd a + snd b)"]
  by (simp add: f32_mul_def f32_val_product)

lemma f32_add_rounds_sum:
  "\<bar>f32_val (f32_add a b) - (f32_val a + f32_val b)\<bar> * 2 \<le> 2 powi (snd (f32_add a b))"
  using round24_half_unit [of "(fst a * 2 ^ nat (snd a - min (snd a) (snd b))
            + fst b * 2 ^ nat (snd b - min (snd a) (snd b)), min (snd a) (snd b))"]
  by (simp add: f32_add_def Let_def f32_val_sum)


lemma round24_significand: "\<bar>fst (round24 x)\<bar> \<le> 2 ^ 24"
proof (cases "bitlen \<bar>fst x\<bar> - 24 \<le> 0")
  case True
  then have "bitlen \<bar>fst x\<bar> \<le> 24"
    by simp
  then have "\<bar>fst x\<bar> < 2 ^ 24"
    by (simp add: bitlen_le_iff_power)
  with True show ?thesis
    by (simp add: round24_def Let_def)
next
  case False
  define K where "K = nat (bitlen \<bar>fst x\<bar> - 24)"
  define m where "m = fst x"
  define q where "q = m div 2 ^ K"
  have K: "nat (bitlen \<bar>m\<bar>) = 24 + K"
    using False by (simp add: K_def m_def)
  have "bitlen \<bar>m\<bar> \<le> bitlen \<bar>m\<bar>"
    by simp
  then have "\<bar>m\<bar> < 2 ^ nat (bitlen \<bar>m\<bar>)"
    unfolding bitlen_le_iff_power by simp
  then have "\<bar>m\<bar> < 2 ^ 24 * 2 ^ K"
    by (simp add: K power_add)
  then have m: "\<bar>m\<bar> < 16777216 * 2 ^ K"
    by simp
  define r where "r = m mod 2 ^ K"
  have split: "m = q * 2 ^ K + r"
    unfolding q_def r_def by (rule div_mult_mod_eq [symmetric])
  have r: "0 \<le> r" "r < 2 ^ K"
    by (simp_all add: r_def)
  have low: "q * 2 ^ K \<le> m"
    using split r(1) by linarith
  have "(q + 1) * 2 ^ K = q * 2 ^ K + 2 ^ K"
    by (simp add: algebra_simps)
  then have up: "m < (q + 1) * 2 ^ K"
    using split r(2) by linarith
  have pos: "(0::int) < 2 ^ K"
    by simp
  have "q * 2 ^ K < 16777216 * 2 ^ K"
    using low m by linarith
  then have q_up: "q < 16777216"
    using pos by (simp only: mult_less_cancel_right_pos)
  have "(- 16777216) * 2 ^ K < (q + 1) * 2 ^ K"
    using up m by linarith
  then have q_low: "- 16777216 < q + 1"
    using pos by (simp only: mult_less_cancel_right_pos)
  have "fst (round24 x) = q \<or> fst (round24 x) = q + 1"
    using False by (simp add: round24_def Let_def q_def m_def K_def)
  with q_up q_low show ?thesis
    by auto
qed

lemma smoothLoop_f32_result:
  "length newGains \<le> length currentGains \<Longrightarrow>
     \<exists>out. smoothLoop_f32 currentGains s i newGains = Some out
       \<and> length out = length newGains
       \<and> (\<forall>k<length newGains. out ! k =
             (if k < i then newGains ! k else blend_f32 (currentGains ! k) (newGains ! k) s))"
proof (induction currentGains s i newGains rule: smoothLoop_f32.induct)
  case (1 currentGains s i newGains)
  show ?case
  proof (cases "i < length newGains")
    case False
    then show ?thesis
      by (subst smoothLoop_f32.simps) simp
  next
    case True
    let ?new = "newGains[i := blend_f32 (currentGains ! i) (newGains ! i) s]"
    have cur: "i < length currentGains"
      using True "1.prems" by simp
    have "\<exists>out. smoothLoop_f32 currentGains s (i + 1) ?new = Some out
       \<and> length out = length ?new
       \<and> (\<forall>k<length ?new. out ! k =
             (if k < i + 1 then ?new ! k else blend_f32 (currentGains ! k) (?new ! k) s))"
      using "1.prems" by (intro "1.IH" [OF True cur]) simp
    then obtain out where
      run: "smoothLoop_f32 currentGains s (i + 1) ?new = Some out"
      and len: "length out = length newGains"
      and vals: "\<forall>k<length newGains. out ! k =
             (if k < i + 1 then ?new ! k else blend_f32 (currentGains ! k) (?new ! k) s)"
      by auto
    have "smoothLoop_f32 currentGains s i newGains = Some out"
      using True cur run by (subst smoothLoop_f32.simps) simp
    moreover have "\<forall>k<length newGains. out ! k =
             (if k < i then newGains ! k else blend_f32 (currentGains ! k) (newGains ! k) s)"
      using vals by (auto simp: nth_list_update less_Suc_eq)
    ultimately show ?thesis
      using len by blast
  qed
qed

lemma bitlen_one: "bitlen 1 = 1"
  by code_simp

lemma round24_is_f32: "is_f32 x \<Longrightarrow> round24 x = x"
  by (simp add: round24_def is_f32_def Let_def)

lemma round24_zero: "round24 (0, e) = (0, e)"
  by (simp add: round24_def Let_def)

lemma blend_f32_zero: "is_f32 x \<Longrightarrow> blend_f32 x x (0, 0) = x"
proof -
  assume x: "is_f32 x"
  have one: "f32_sub (1, 0) (0, 0) = (1, 0)"
    by (simp add: f32_sub_def f32_add_def round24_def Let_def bitlen_one)
  have "f32_mul x (0, 0) = (0, snd x)"
    by (simp add: f32_mul_def round24_zero)
  moreover have "f32_mul x (1, 0) = x"
    using x by (simp add: f32_mul_def round24_is_f32)
  moreover have "f32_add (0, snd x) x = x"
    using x by (simp add: f32_add_def round24_is_f32)
  ultimately show ?thesis
    by (simp add: blend_f32_def one)
qed

lemma blend_f32_one: "is_f32 x \<Longrightarrow> blend_f32 x x (1, 0) = x"
proof -
  assume x: "is_f32 x"
  have zero: "f32_sub (1, 0) (1, 0) = (0, 0)"
    by (simp add: f32_sub_def f32_add_def round24_zero)
  have "f32_mul x (0, 0) = (0, snd x)"
    by (simp add: f32_mul_def round24_zero)
  moreover have "f32_mul x (1, 0) = x"
    using x by (simp add: f32_mul_def round24_is_f32)
  moreover have "f32_add x (0, snd x) = x"
    using x by (simp add: f32_add_def round24_is_f32)
  ultimately show ?thesis
    by (simp add: blend_f32_def zero)
qed

lemma smoothTransition_f32_same:
  assumes "\<forall>x\<in>set g. is_f32 x" "s = (0, 0) \<or> s = (1, 0)"
  shows "smoothTransition_f32 g g s = Some g"
proof -
  from smoothLoop_f32_result [of g g s 0] obtain out where
    run: "smoothLoop_f32 g s 0 g = Some out" and len: "length out = length g"
    and vals: "\<forall>k<length g. out ! k = blend_f32 (g ! k) (g ! k) s"
    by auto
  have "out = g"
  proof (rule nth_equalityI)
    show "length out = length g" by (rule len)
  next
    fix k assume "k < length out"
    then have k: "k < length g" using len by simp
    then have "is_f32 (g ! k)"
      using assms(1) by simp
    then have "blend_f32 (g ! k) (g ! k) s = g ! k"
      using assms(2) blend_f32_zero blend_f32_one by blast
    with vals k show "out ! k = g ! k"
      by simp
  qed
  with run show ?thesis
    by (simp add: smoothTransition_f32_def)
qed

text \<open>
  The steps of one blend in binary32, for the gain 29 and the smoothing factor
  \<^verbatim>\<open>0.4f\<close>, which is \<open>13421773 * 2 ^ -25\<close>: the first product rounds up, \<^verbatim>\<open>1.0f - 0.4f\<close>
  is a tie and rounds to the even significand, the second product rounds up, and the
  final sum is exact.
\<close>

lemma blend_f32_steps:
  "f32_mul (29, 0) (13421773, - 25) = (12163482, - 20)"
  "f32_sub (1, 0) (13421773, - 25) = (10066330, - 24)"
  "f32_mul (29, 0) (10066330, - 24) = (9122612, - 19)"
  "f32_add (12163482, - 20) (9122612, - 19) = (15204353, - 19)"
  by code_simp+

text \<open>Fusing either product into the addition gives the same result for these values.\<close>

lemma blend_f32_steps_fused:
  "f32_fma (29, 0) (13421773, - 25) (9122612, - 19) = (15204353, - 19)"
  "f32_fma (29, 0) (10066330, - 24) (12163482, - 20) = (15204353, - 19)"
  by code_simp+

text \<open>
  Claim C7 says that \<open>smoothTransition(g, g, s)\<close> leaves \<open>g\<close> unchanged exactly, for
  any \<open>s\<close>. In binary32 arithmetic it fails for the one-element vector \<open>g = [29]\<close> and
  \<open>s\<close> the \<^verbatim>\<open>float\<close> nearest to 0.4: the result is \<open>15204353 * 2 ^ -19\<close>, which is
  \<open>29 + 2 ^ -19\<close>.
\<close>

theorem smoothTransition_f32_rounding:
  "is_f32 (29, 0) \<and> is_f32 (13421773, - 25)
   \<and> smoothTransition_f32 [(29, 0)] [(29, 0)] (13421773, - 25) = Some [(15204353, - 19)]
   \<and> f32_val (15204353, - 19) \<noteq> f32_val (29, 0)"
proof -
  have "is_f32 (29, 0)" "is_f32 (13421773, - 25)"
    by code_simp+
  moreover have "smoothTransition_f32 [(29, 0)] [(29, 0)] (13421773, - 25) = Some [(15204353, - 19)]"
    by code_simp
  moreover have "f32_val (15204353, - 19) \<noteq> f32_val (29, 0)"
    by (simp add: f32_val_def)
  ultimately show ?thesis by blast
qed

text \<open>
  Claim C7, amended. In exact arithmetic \<open>smoothTransition(g, g, s)\<close> leaves \<open>g\<close>
  unchanged for every gain vector \<open>g\<close> and every \<open>s\<close>: per bin,
  \<open>g[k] * s + g[k] * (1 - s) = g[k]\<close>. In binary32 arithmetic it leaves a vector of
  binary32 values unchanged when \<open>s\<close> is \<^verbatim>\<open>0.0f\<close> or \<^verbatim>\<open>1.0f\<close>.
\<close>

theorem smoothTransition_idempotent_exact_arithmetic:
  "smoothTransition g g s = Some g
   \<and> ((\<forall>x\<in>set gf. is_f32 x) \<and> (sf = (0, 0) \<or> sf = (1, 0)) \<longrightarrow>
        smoothTransition_f32 gf gf sf = Some gf)"
  using smoothTransition_same_real smoothTransition_f32_same by blast

theorem smoothTransition_idempotent_exact_arithmetic_witness:
  "smoothTransition [1, 2.5, 29] [1, 2.5, 29] 0.4 = Some [1, 2.5, 29]
   \<and> is_f32 (29, 0) \<and> is_f32 (5, - 1)
   \<and> smoothTransition_f32 [(29, 0), (5, - 1)] [(29, 0), (5, - 1)] (1, 0) = Some [(29, 0), (5, - 1)]"
proof -
  have f: "is_f32 (29, 0)" "is_f32 (5, - 1)"
    by code_simp+
  then have h1: "\<forall>x\<in>set [(29, 0), (5, - 1)]. is_f32 x"
    by simp
  have h2: "(1, 0) = (0, 0) \<or> (1, 0) = ((1, 0) :: f32)"
    by simp
  from smoothTransition_idempotent_exact_arithmetic
    [of "[1, 2.5, 29]" "0.4" "[(29, 0), (5, - 1)]" "(1, 0)"] h1 h2 f
  show ?thesis
    by blast
qed

subsection \<open>The interpolator against the bilinear interpolation\<close>

text \<open>
  Claim C2 says that \<open>interpolatePhonToSPL\<close> interpolates bilinearly over the whole phon
  axis. At 1000 Hz the function returns 29.0, the entry of row 2, for the phon levels 0,
  5 and 10 alike, where the table holds 4.2 at 0 phon and 13.4 at 10 phon and the
  bilinear interpolation of the specification gives 4.2, 8.8 and 13.4.
\<close>

theorem interpolatePhonToSPL_fixed_rows:
  "interpolatePhonToSPL 1000 0 = 29 \<and> interpolatePhonToSPL 1000 5 = 29
   \<and> interpolatePhonToSPL 1000 10 = 29
   \<and> spec_bilinearInterpolate 1000 0 = 4.2 \<and> spec_bilinearInterpolate 1000 5 = 8.8
   \<and> spec_bilinearInterpolate 1000 10 = 13.4
   \<and> ISO226_SPL ! 0 ! 17 = 4.2 \<and> ISO226_SPL ! 1 ! 17 = 13.4"
  by code_simp

end
